theory Spec2Isabelle
  imports Main
begin

section \<open>Python strings and integers\<close>

text \<open>
  The program is \<^verbatim>\<open>src/oozie-memory.py\<close>. A Python \<^verbatim>\<open>str\<close> is a sequence of code points;
  it is modelled as a \<open>string\<close> whose characters are the code points U+0000 to U+00FF,
  so the character tables below (\<^verbatim>\<open>str.isdigit\<close>, whitespace, decimal digits) are the
  Unicode ones cut down to that range. Python integers are unbounded: \<open>int\<close>.
  The interpreter's optional limit on the number of digits of an integer conversion
  is not part of the language and is not modelled.
\<close>

datatype error = ValueError | AttributeError

text \<open>\<^verbatim>\<open>s.startswith(p)\<close>, \<^verbatim>\<open>s.endswith(p)\<close> and \<^verbatim>\<open>k in s\<close> (substring test).\<close>

fun startswith :: "string \<Rightarrow> string \<Rightarrow> bool" where
  "startswith s [] = True"
| "startswith [] (p # ps) = False"
| "startswith (c # s) (p # ps) = (c = p \<and> startswith s ps)"

definition endswith :: "string \<Rightarrow> string \<Rightarrow> bool" where
  "endswith s p = startswith (rev s) (rev p)"

fun contains :: "string \<Rightarrow> string \<Rightarrow> bool" where
  "contains [] k = startswith [] k"
| "contains (c # s) k = (startswith (c # s) k \<or> contains s k)"

text \<open>
  The characters \<^verbatim>\<open>str.strip()\<close> and \<^verbatim>\<open>int()\<close> treat as whitespace: U+0009 to U+000D,
  U+001C to U+0020, U+0085 and U+00A0.
\<close>

definition isspace_char :: "char \<Rightarrow> bool" where
  "isspace_char c = (c \<in> set [CHR 0x09, CHR 0x0A, CHR 0x0B, CHR 0x0C, CHR 0x0D,
     CHR 0x1C, CHR 0x1D, CHR 0x1E, CHR 0x1F, CHR 0x20, CHR 0x85, CHR 0xA0])"

text \<open>Decimal digits (what \<^verbatim>\<open>\d\<close> matches and what \<^verbatim>\<open>int()\<close> reads): \<^verbatim>\<open>0\<close> to \<^verbatim>\<open>9\<close>.\<close>

definition isdecimal_char :: "char \<Rightarrow> bool" where
  "isdecimal_char c = (c \<in> set ''0123456789'')"

text \<open>
  \<^verbatim>\<open>str.isdigit()\<close> also accepts the superscript digits U+00B2, U+00B3 and U+00B9,
  which \<^verbatim>\<open>int()\<close> rejects. The empty string is not a digit string.
\<close>

definition isdigit_char :: "char \<Rightarrow> bool" where
  "isdigit_char c = (isdecimal_char c \<or> c \<in> set [CHR 0xB2, CHR 0xB3, CHR 0xB9])"

definition isdigit :: "string \<Rightarrow> bool" where
  "isdigit s = (s \<noteq> [] \<and> list_all isdigit_char s)"

definition strip :: "string \<Rightarrow> string" where
  "strip s = rev (dropWhile isspace_char (rev (dropWhile isspace_char s)))"

text \<open>The value of a decimal digit, and of a run of decimal digits.\<close>

definition digit_val :: "char \<Rightarrow> int" where
  "digit_val c = int (of_char c) - 48"

definition digits_val :: "string \<Rightarrow> int" where
  "digits_val ds = foldl (\<lambda>acc c. 10 * acc + digit_val c) 0 ds"

text \<open>
  The digit part of an integer literal given to \<^verbatim>\<open>int()\<close>: decimal digits with single
  underscores between them; it neither starts nor ends with an underscore.
\<close>

fun digit_part :: "string \<Rightarrow> bool" where
  "digit_part [] = False"
| "digit_part [c] = isdecimal_char c"
| "digit_part (c # d # s) =
     (isdecimal_char c \<and> (if d = CHR ''_'' then digit_part s else digit_part (d # s)))"

text \<open>
  \<^verbatim>\<open>int(s)\<close> on a string: surrounding whitespace is dropped, one sign is allowed
  directly before the digits, anything else raises \<^verbatim>\<open>ValueError\<close>. The whitespace of
  \<^verbatim>\<open>int()\<close> is smaller than the one of \<^verbatim>\<open>str.strip()\<close>: it does not skip the separators
  U+001C to U+001F.
\<close>

definition int_space_char :: "char \<Rightarrow> bool" where
  "int_space_char c = (c \<in> set [CHR 0x09, CHR 0x0A, CHR 0x0B, CHR 0x0C, CHR 0x0D,
     CHR 0x20, CHR 0x85, CHR 0xA0])"

definition int_strip :: "string \<Rightarrow> string" where
  "int_strip s = rev (dropWhile int_space_char (rev (dropWhile int_space_char s)))"

definition py_int :: "string \<Rightarrow> error + int" where
  "py_int s =
     (let t = int_strip s;
          neg = startswith t ''-'';
          body = (if startswith t ''-'' \<or> startswith t ''+'' then tl t else t)
      in if digit_part body
         then (let n = digits_val (filter (\<lambda>c. c \<noteq> CHR ''_'') body)
               in Inr (if neg then - n else n))
         else Inl ValueError)"

text \<open>\<^verbatim>\<open>str(n)\<close> on an integer: decimal, no padding, a minus sign when negative.\<close>

definition digit_char :: "nat \<Rightarrow> char" where
  "digit_char k = ''0123456789'' ! (k mod 10)"

fun str_nat :: "nat \<Rightarrow> string" where
  "str_nat n = (if n < 10 then [digit_char n] else str_nat (n div 10) @ [digit_char n])"

declare str_nat.simps [simp del]

definition str_int :: "int \<Rightarrow> string" where
  "str_int i = (if i < 0 then CHR ''-'' # str_nat (nat (- i)) else str_nat (nat i))"

section \<open>Value Transformer\<close>

text \<open>
  \<^verbatim>\<open>increase_yarn_value(value, delta_mb)\<close>. The slice \<^verbatim>\<open>value[4:-1]\<close> is
  \<open>drop 4 (take (length value - 1) value)\<close>; \<^verbatim>\<open>int\<close> may raise.
\<close>

definition increase_yarn_value :: "string \<Rightarrow> int \<Rightarrow> error + string" where
  "increase_yarn_value value delta_mb =
     (if startswith value ''-Xmx'' \<and> endswith value ''M'' then
        (case py_int (drop 4 (take (length value - 1) value)) of
           Inl e \<Rightarrow> Inl e
         | Inr num \<Rightarrow> Inr (''-Xmx'' @ str_int (num + delta_mb) @ ''M''))
      else if isdigit value then
        (case py_int value of
           Inl e \<Rightarrow> Inl e
         | Inr n \<Rightarrow> Inr (str_int (n + delta_mb)))
      else Inr value)"

text \<open>
  \<^verbatim>\<open>re.match(r'-Xmx(\d+)([mM])', value)\<close>: the match is anchored at the start only.
  The greedy \<^verbatim>\<open>\d+\<close> takes the longest run of decimal digits after \<^verbatim>\<open>-Xmx\<close>; giving
  digits back cannot help, since the character after a shorter run is a digit and
  not \<^verbatim>\<open>m\<close> or \<^verbatim>\<open>M\<close>. The result is the two groups.
\<close>

definition match_xmx :: "string \<Rightarrow> (string \<times> char) option" where
  "match_xmx value =
     (if startswith value ''-Xmx'' then
        (let r = drop 4 value;
             ds = takeWhile isdecimal_char r
         in case dropWhile isdecimal_char r of
              [] \<Rightarrow> None
            | c # _ \<Rightarrow> if ds \<noteq> [] \<and> (c = CHR ''m'' \<or> c = CHR ''M'') then Some (ds, c) else None)
      else None)"

text \<open>
  \<^verbatim>\<open>increase_general_value(value, delta_mb, is_java_opt, is_reduce_memory)\<close>. The two
  \<^verbatim>\<open>re.match\<close> calls of the source use the same pattern up to grouping, so the inner
  \<^verbatim>\<open>if match\<close> always holds inside the \<^verbatim>\<open>elif\<close>.
\<close>

definition increase_general_value :: "string \<Rightarrow> int \<Rightarrow> bool \<Rightarrow> bool \<Rightarrow> error + string" where
  "increase_general_value value delta_mb is_java_opt is_reduce_memory =
     (if startswith value ''${'' then
        (if is_reduce_memory then Inr (''-Xmx'' @ str_int (delta_mb - 512) @ ''M'')
         else Inr (str_int delta_mb))
      else if isdigit value then
        (case py_int value of
           Inl e \<Rightarrow> Inl e
         | Inr n \<Rightarrow> Inr (str_int (n + delta_mb)))
      else
        (case match_xmx value of
           None \<Rightarrow> Inr value
         | Some (ds, c) \<Rightarrow>
             (case py_int ds of
                Inl e \<Rightarrow> Inl e
              | Inr n \<Rightarrow> Inr (''-Xmx'' @ str_int (n + delta_mb) @ [c]))))"

section \<open>Document Mutator\<close>

text \<open>
  An \<^verbatim>\<open>xml.etree.ElementTree.Element\<close>: tag, attributes, text, tail and the child
  elements in document order. \<^verbatim>\<open>text\<close> and \<^verbatim>\<open>tail\<close> are \<^verbatim>\<open>None\<close> when the document has no
  character data there, so \<^verbatim>\<open><value/>\<close> has the text \<open>None\<close>. The input of the model is
  the tree \<^verbatim>\<open>ET.parse\<close> has built; a document that does not parse never reaches the loop.
\<close>

datatype element = Element (el_tag: string) (el_attrib: "(string \<times> string) list")
  (el_text: "string option") (el_tail: "string option") (el_children: "element list")

text \<open>
  \<^verbatim>\<open>re.match(r'\{.*\}', root.tag)\<close> and \<^verbatim>\<open>m.group(0) if m else ''\<close>: the tag must start
  with a brace; the greedy \<^verbatim>\<open>.*\<close> stays on the first line and the match ends at the
  last closing brace of that line.
\<close>

definition detect_ns :: "string \<Rightarrow> string" where
  "detect_ns t =
     (if startswith t ''{'' then
        (let line = takeWhile (\<lambda>c. c \<noteq> CHR 0x0A) t
         in rev (dropWhile (\<lambda>c. c \<noteq> CHR ''}'') (rev line)))
      else [])"

text \<open>
  \<^verbatim>\<open>prop.find(tag)\<close> for a plain tag: the first child with that tag, or \<^verbatim>\<open>None\<close>. A path
  that starts with the wildcard \<^verbatim>\<open>{*}\<close>, which \<^verbatim>\<open>find\<close> matches in any namespace, arises
  only under a root whose namespace URI is \<^verbatim>\<open>*\<close>; the model does not cover that root.
\<close>

fun find_child :: "element list \<Rightarrow> string \<Rightarrow> element option" where
  "find_child [] t = None"
| "find_child (c # cs) t = (if el_tag c = t then Some c else find_child cs t)"

text \<open>
  \<^verbatim>\<open>value_elem.text = new_value\<close>, where \<^verbatim>\<open>value_elem\<close> is the first child with tag \<open>t\<close>:
  the assignment is seen through the parent, whose list of children holds that element.
\<close>

definition set_text :: "string \<Rightarrow> element \<Rightarrow> element" where
  "set_text new e = Element (el_tag e) (el_attrib e) (Some new) (el_tail e) (el_children e)"

fun assign_text :: "string \<Rightarrow> string \<Rightarrow> element list \<Rightarrow> element list" where
  "assign_text t new [] = []"
| "assign_text t new (c # cs) =
     (if el_tag c = t then set_text new c # cs else c # assign_text t new cs)"

definition set_children :: "element list \<Rightarrow> element \<Rightarrow> element" where
  "set_children cs e = Element (el_tag e) (el_attrib e) (el_text e) (el_tail e) cs"

text \<open>The two name tests of the loop body (lines 103 and 112 to 117).\<close>

definition eligible_yarn :: "string \<Rightarrow> bool" where
  "eligible_yarn name =
     (name = ''yarn.app.mapreduce.am.command-opts'' \<or> name = ''yarn.app.mapreduce.am.resource.mb'')"

definition eligible_general :: "string \<Rightarrow> bool" where
  "eligible_general name =
     list_ex (\<lambda>k. contains name k)
       [''mapreduce.map.memory.mb'', ''mapreduce.map.java.opts'',
        ''mapreduce.reduce.memory.mb'', ''mapreduce.reduce.java.opts'']"

text \<open>
  The body of the \<^verbatim>\<open>for\<close> loop of \<^verbatim>\<open>process_xml\<close> (lines 93 to 128) on one property
  element, with the counter passed through. \<^verbatim>\<open>continue\<close> leaves both as they are;
  \<^verbatim>\<open>.text.strip()\<close> on a text that is \<^verbatim>\<open>None\<close> raises \<^verbatim>\<open>AttributeError\<close>, the name first.
\<close>

definition process_property ::
  "string \<Rightarrow> int \<Rightarrow> bool \<Rightarrow> element \<Rightarrow> int \<Rightarrow> error + (element \<times> int)" where
  "process_property ns delta_mb yarn_only prop modified_count =
     (case find_child (el_children prop) (ns @ ''name'') of
        None \<Rightarrow> Inr (prop, modified_count)
      | Some name_elem \<Rightarrow>
     (case find_child (el_children prop) (ns @ ''value'') of
        None \<Rightarrow> Inr (prop, modified_count)
      | Some value_elem \<Rightarrow>
     (case el_text name_elem of
        None \<Rightarrow> Inl AttributeError
      | Some name_text \<Rightarrow>
     (case el_text value_elem of
        None \<Rightarrow> Inl AttributeError
      | Some value_text \<Rightarrow>
        (let name = strip name_text; value = strip value_text
         in if yarn_only then
              (if eligible_yarn name then
                 (case increase_yarn_value value delta_mb of
                    Inl e \<Rightarrow> Inl e
                  | Inr new_value \<Rightarrow>
                      if new_value \<noteq> value
                      then Inr (set_children
                                  (assign_text (ns @ ''value'') new_value (el_children prop)) prop,
                                modified_count + 1)
                      else Inr (prop, modified_count))
               else Inr (prop, modified_count))
            else
              (if eligible_general name then
                 (let is_java_opt = contains name ''java.opts'';
                      is_reduce_memory = (name = ''mapreduce.reduce.memory.mb'')
                  in case increase_general_value value delta_mb is_java_opt is_reduce_memory of
                       Inl e \<Rightarrow> Inl e
                     | Inr new_value \<Rightarrow>
                         if new_value \<noteq> value
                         then Inr (set_children
                                     (assign_text (ns @ ''value'') new_value (el_children prop)) prop,
                                   modified_count + 1)
                         else Inr (prop, modified_count))
               else Inr (prop, modified_count)))))))"

text \<open>
  \<^verbatim>\<open>for prop in root.iter(ns + 'property')\<close>: the element itself first, then its
  children from left to right, each with its own descendants; the body runs on the
  elements whose tag is the property tag. The loop assigns to texts only, so the shape
  of the tree it walks never changes. An exception ends the walk.
\<close>

fun count_elems :: "element \<Rightarrow> nat" where
  "count_elems (Element t a x tail cs) = Suc (sum_list (map count_elems cs))"

function (sequential)
  walk :: "string \<Rightarrow> int \<Rightarrow> bool \<Rightarrow> element \<Rightarrow> int \<Rightarrow> error + (element \<times> int)" and
  walk_children ::
    "string \<Rightarrow> int \<Rightarrow> bool \<Rightarrow> element list \<Rightarrow> int \<Rightarrow> error + (element list \<times> int)"
where
  "walk ns delta_mb yarn_only e modified_count =
     (case (if el_tag e = ns @ ''property''
            then process_property ns delta_mb yarn_only e modified_count
            else Inr (e, modified_count)) of
        Inl err \<Rightarrow> Inl err
      | Inr r \<Rightarrow>
          (case walk_children ns delta_mb yarn_only (el_children (fst r)) (snd r) of
             Inl err \<Rightarrow> Inl err
           | Inr rs \<Rightarrow> Inr (set_children (fst rs) (fst r), snd rs)))"
| "walk_children ns delta_mb yarn_only [] modified_count = Inr ([], modified_count)"
| "walk_children ns delta_mb yarn_only (c # cs) modified_count =
     (case walk ns delta_mb yarn_only c modified_count of
        Inl err \<Rightarrow> Inl err
      | Inr r \<Rightarrow>
          (case walk_children ns delta_mb yarn_only cs (snd r) of
             Inl err \<Rightarrow> Inl err
           | Inr rs \<Rightarrow> Inr (fst r # fst rs, snd rs)))"
  by pat_completeness auto

lemma count_elems_set_text: "count_elems (set_text new c) = count_elems c"
  by (cases c) (simp add: set_text_def)

lemma count_elems_assign_text:
  "sum_list (map count_elems (assign_text t new cs)) = sum_list (map count_elems cs)"
  by (induction cs) (simp_all add: count_elems_set_text)

lemma process_property_count_elems:
  "process_property ns d y e n = Inr r \<Longrightarrow>
   sum_list (map count_elems (el_children (fst r))) = sum_list (map count_elems (el_children e))"
  by (auto simp: process_property_def Let_def set_children_def count_elems_assign_text
           split: option.splits sum.splits if_splits)

termination walk
  apply (relation "measure (\<lambda>x. case x of
      Inl (ns, d, y, e, n) \<Rightarrow> 2 * count_elems e
    | Inr (ns, d, y, cs, n) \<Rightarrow> 2 * sum_list (map count_elems cs) + 1)")
  subgoal by simp
  subgoal for ns d y e n r
    by (cases e) (auto dest: process_property_count_elems split: if_splits)
  subgoal by simp
  subgoal for ns d y c cs n
    by (cases c) simp
  done

declare walk.simps [simp del]

text \<open>
  \<^verbatim>\<open>process_xml(input_file, delta_mb, yarn_only)\<close> on the parsed tree. The function has
  no \<^verbatim>\<open>return\<close> statement, so what the caller gets is \<^verbatim>\<open>None\<close>. The record describes
  a call that came to its end: the value returned, the tree and the counter when the
  loop was left, and what \<^verbatim>\<open>tree.write\<close> put into the file (\<open>None\<close> when it was not
  called). A call that raises leaves the file as it was.
\<close>

datatype py_value = PyNone | PyInt int | PyBool bool | PyTuple "py_value list"

record xml_run =
  returned :: py_value
  final_tree :: element
  final_count :: int
  written :: "element option"

definition process_xml :: "element \<Rightarrow> int \<Rightarrow> bool \<Rightarrow> error + xml_run" where
  "process_xml root delta_mb yarn_only =
     (let ns = detect_ns (el_tag root)
      in case walk ns delta_mb yarn_only root 0 of
           Inl err \<Rightarrow> Inl err
         | Inr (tree, modified_count) \<Rightarrow>
             Inr \<lparr>returned = PyNone, final_tree = tree, final_count = modified_count,
                  written = (if modified_count > 0 then Some tree else None)\<rparr>)"

section \<open>Notions the properties are stated with\<close>

text \<open>
  \<open>iter_all\<close> lists the elements of a tree in document order, as \<^verbatim>\<open>root.iter()\<close> does.
  A property element is eligible when its tag is the property tag and the stripped
  text of its name child passes the name test of the mode; \<open>property_value\<close> is the
  text of its value child. \<open>kept\<close> relates an element of the input to the element at
  the same place of the output: the same tag, attributes, tail and child tags, and,
  unless it is an eligible property, the same texts of the children, so the same value.
  \<open>text_changes\<close> counts the places where two trees of one shape differ in their text.
\<close>

fun iter_all :: "element \<Rightarrow> element list" where
  "iter_all (Element t a x tail cs) = Element t a x tail cs # concat (map iter_all cs)"

definition eligible_property :: "string \<Rightarrow> bool \<Rightarrow> element \<Rightarrow> bool" where
  "eligible_property ns yarn_only e =
     (el_tag e = ns @ ''property'' \<and>
      (case find_child (el_children e) (ns @ ''name'') of
         None \<Rightarrow> False
       | Some name_elem \<Rightarrow>
           (case el_text name_elem of
              None \<Rightarrow> False
            | Some name_text \<Rightarrow>
                if yarn_only then eligible_yarn (strip name_text)
                else eligible_general (strip name_text))))"

definition property_value :: "string \<Rightarrow> element \<Rightarrow> string option" where
  "property_value ns e =
     (case find_child (el_children e) (ns @ ''value'') of
        None \<Rightarrow> None
      | Some value_elem \<Rightarrow> el_text value_elem)"

definition kept :: "string \<Rightarrow> bool \<Rightarrow> element \<Rightarrow> element \<Rightarrow> bool" where
  "kept ns yarn_only e e' =
     (el_tag e' = el_tag e \<and> el_attrib e' = el_attrib e \<and> el_tail e' = el_tail e \<and>
      map el_tag (el_children e') = map el_tag (el_children e) \<and>
      (\<not> eligible_property ns yarn_only e \<longrightarrow>
         map el_text (el_children e') = map el_text (el_children e) \<and>
         property_value ns e' = property_value ns e))"

fun text_changes :: "element \<Rightarrow> element \<Rightarrow> nat"
  and text_changes_list :: "element list \<Rightarrow> element list \<Rightarrow> nat" where
  "text_changes (Element t a x tail cs) (Element t' a' x' tail' cs') =
     (if x = x' then 0 else 1) + text_changes_list cs cs'"
| "text_changes_list (c # cs) (c' # cs') = text_changes c c' + text_changes_list cs cs'"
| "text_changes_list [] cs' = 0"
| "text_changes_list (c # cs) [] = 0"

text \<open>
  Two relations for the proofs: what a walk keeps of the element it starts at, and what
  an assignment to a text keeps of the element.
\<close>

definition root_same :: "element \<Rightarrow> element \<Rightarrow> bool" where
  "root_same a b = (el_tag b = el_tag a \<and> el_attrib b = el_attrib a \<and>
     el_text b = el_text a \<and> el_tail b = el_tail a)"

definition same_but_text :: "element \<Rightarrow> element \<Rightarrow> bool" where
  "same_but_text a b = (el_tag b = el_tag a \<and> el_attrib b = el_attrib a \<and>
     el_tail b = el_tail a \<and> el_children b = el_children a)"

text \<open>
  \<open>placeholder_name\<close> is the stripped name of an element that is an eligible property
  of the general mode with a placeholder value, and \<open>placeholder_done\<close> says that the
  element at the same place of the output then has the value the general mode gives
  a placeholder under that name.
\<close>

definition placeholder_name :: "string \<Rightarrow> element \<Rightarrow> string option" where
  "placeholder_name ns e =
     (if el_tag e = ns @ ''property'' then
        (case find_child (el_children e) (ns @ ''name'') of
           None \<Rightarrow> None
         | Some name_elem \<Rightarrow>
             (case el_text name_elem of
                None \<Rightarrow> None
              | Some name_text \<Rightarrow>
                  (case property_value ns e of
                     None \<Rightarrow> None
                   | Some value_text \<Rightarrow>
                       if eligible_general (strip name_text) \<and>
                          startswith (strip value_text) ''${''
                       then Some (strip name_text) else None)))
      else None)"

definition placeholder_done :: "string \<Rightarrow> int \<Rightarrow> element \<Rightarrow> element \<Rightarrow> bool" where
  "placeholder_done ns d e e' =
     (case placeholder_name ns e of
        None \<Rightarrow> True
      | Some name \<Rightarrow>
          property_value ns e' =
            Some (if name = ''mapreduce.reduce.memory.mb''
                  then ''-Xmx'' @ str_int (d - 512) @ ''M'' else str_int d))"

section \<open>Example documents\<close>

text \<open>
  Property elements and documents as \<^verbatim>\<open>ET.parse\<close> builds them. \<open>prop_no_value\<close> is
  \<^verbatim>\<open><property><name>mapreduce.map.memory.mb</name></property>\<close>; \<open>doc_mixed\<close> is a
  namespaced configuration with one memory property and one unrelated numeric
  property, and \<open>tree_mixed\<close> is the same document after 1024 was added in the general
  mode. In \<open>doc_empty_value\<close> and \<open>doc_unrelated_empty\<close> the value element is the
  empty element \<^verbatim>\<open><value/>\<close>, whose text is \<^verbatim>\<open>None\<close>. \<open>doc_placeholders\<close> holds a
  placeholder under a prefixed and under the exact reduce-memory name, and
  \<open>tree_placeholders\<close> is that document after 1024 was added in the general mode.
\<close>

definition prop_no_value :: element where
  "prop_no_value =
     Element ''property'' [] None None
       [Element ''name'' [] (Some ''mapreduce.map.memory.mb'') None []]"

definition prop_map_memory :: element where
  "prop_map_memory =
     Element ''property'' [] None None
       [Element ''name'' [] (Some ''mapreduce.map.memory.mb'') None [],
        Element ''value'' [] (Some ''1024'') None []]"

definition prop_prefixed_reduce :: element where
  "prop_prefixed_reduce =
     Element ''property'' [] None None
       [Element ''name'' [] (Some ''x.mapreduce.reduce.memory.mb'') None [],
        Element ''value'' [] (Some ''${reduceMemory}'') None []]"

definition doc_mixed :: element where
  "doc_mixed =
     Element ''{uri:oozie:workflow:0.5}configuration'' [] (Some [CHR 0x0A]) None
       [Element ''{uri:oozie:workflow:0.5}property'' [] None (Some [CHR 0x0A])
          [Element ''{uri:oozie:workflow:0.5}name'' [] (Some ''mapreduce.map.memory.mb'') None [],
           Element ''{uri:oozie:workflow:0.5}value'' [] (Some '' 1024 '') None []],
        Element ''{uri:oozie:workflow:0.5}property'' [(''final'', ''true'')] None (Some [CHR 0x0A])
          [Element ''{uri:oozie:workflow:0.5}name'' [] (Some ''oozie.launcher.memory.mb'') None [],
           Element ''{uri:oozie:workflow:0.5}value'' [] (Some ''512'') None []]]"

definition tree_mixed :: element where
  "tree_mixed =
     Element ''{uri:oozie:workflow:0.5}configuration'' [] (Some [CHR 0x0A]) None
       [Element ''{uri:oozie:workflow:0.5}property'' [] None (Some [CHR 0x0A])
          [Element ''{uri:oozie:workflow:0.5}name'' [] (Some ''mapreduce.map.memory.mb'') None [],
           Element ''{uri:oozie:workflow:0.5}value'' [] (Some ''2048'') None []],
        Element ''{uri:oozie:workflow:0.5}property'' [(''final'', ''true'')] None (Some [CHR 0x0A])
          [Element ''{uri:oozie:workflow:0.5}name'' [] (Some ''oozie.launcher.memory.mb'') None [],
           Element ''{uri:oozie:workflow:0.5}value'' [] (Some ''512'') None []]]"

definition doc_empty_value :: element where
  "doc_empty_value =
     Element ''configuration'' [] None None
       [Element ''property'' [] None None
          [Element ''name'' [] (Some ''mapreduce.map.memory.mb'') None [],
           Element ''value'' [] None None []]]"

definition doc_unrelated_empty :: element where
  "doc_unrelated_empty =
     Element ''configuration'' [] None None
       [Element ''property'' [] None None
          [Element ''name'' [] (Some ''oozie.use.system.libpath'') None [],
           Element ''value'' [] None None []]]"

definition prop_exact_reduce :: element where
  "prop_exact_reduce =
     Element ''property'' [] None None
       [Element ''name'' [] (Some ''mapreduce.reduce.memory.mb'') None [],
        Element ''value'' [] (Some ''${reduceMemory}'') None []]"

definition doc_placeholders :: element where
  "doc_placeholders =
     Element ''configuration'' [] None None [prop_prefixed_reduce, prop_exact_reduce]"

definition tree_placeholders :: element where
  "tree_placeholders =
     Element ''configuration'' [] None None
       [Element ''property'' [] None None
          [Element ''name'' [] (Some ''x.mapreduce.reduce.memory.mb'') None [],
           Element ''value'' [] (Some ''1024'') None []],
        Element ''property'' [] None None
          [Element ''name'' [] (Some ''mapreduce.reduce.memory.mb'') None [],
           Element ''value'' [] (Some ''-Xmx512M'') None []]]"

section \<open>Facts about strings and integer conversion\<close>

lemma startswith_take: "startswith s p = (take (length p) s = p)"
  by (induction s p rule: startswith.induct) auto

lemma startswith_append [simp]: "startswith (p @ s) p"
  by (simp add: startswith_take)

lemma endswith_append [simp]: "endswith (s @ p) p"
  by (simp add: endswith_def)

lemma decimal_not_space: "isdecimal_char c \<Longrightarrow> \<not> isspace_char c"
  by (auto simp: isdecimal_char_def isspace_char_def)

lemma decimal_cases:
  "isdecimal_char c \<Longrightarrow> c \<noteq> CHR ''-'' \<and> c \<noteq> CHR ''+'' \<and> c \<noteq> CHR ''_'' \<and> c \<noteq> CHR ''$''
     \<and> c \<noteq> CHR ''m'' \<and> c \<noteq> CHR ''M''"
  by (auto simp: isdecimal_char_def)

lemma trim_id:
  assumes "s \<noteq> []" "\<not> P (hd s)" "\<not> P (last s)"
  shows "rev (dropWhile P (rev (dropWhile P s))) = s"
proof -
  have a: "dropWhile P s = s"
    using assms by (cases s) auto
  have "rev s \<noteq> []" "\<not> P (hd (rev s))"
    using assms by (simp_all add: hd_rev)
  then have b: "dropWhile P (rev s) = rev s"
    by (cases "rev s") auto
  show ?thesis by (simp add: a b)
qed

lemma strip_id:
  assumes "s \<noteq> []" "\<not> isspace_char (hd s)" "\<not> isspace_char (last s)"
  shows "strip s = s"
  unfolding strip_def using assms by (rule trim_id)

lemma int_space_is_space: "int_space_char c \<Longrightarrow> isspace_char c"
  by (auto simp: int_space_char_def isspace_char_def)

lemma digit_part_decimal: "ds \<noteq> [] \<Longrightarrow> list_all isdecimal_char ds \<Longrightarrow> digit_part ds"
  by (induction ds rule: digit_part.induct) (auto dest: decimal_cases)

lemma filter_decimal: "list_all isdecimal_char ds \<Longrightarrow> filter (\<lambda>c. c \<noteq> CHR ''_'') ds = ds"
  by (induction ds) (auto dest: decimal_cases)

lemma py_int_decimal:
  assumes "ds \<noteq> []" "list_all isdecimal_char ds"
  shows "py_int ds = Inr (digits_val ds)"
proof -
  have h: "isdecimal_char (hd ds)" "isdecimal_char (last ds)"
    using assms by (auto simp: list_all_iff)
  then have s: "int_strip ds = ds"
    unfolding int_strip_def using assms(1)
    by (intro trim_id) (auto dest: decimal_not_space int_space_is_space)
  have n: "\<not> startswith ds ''-''" "\<not> startswith ds ''+''"
    using assms(1) h(1) by (cases ds; auto dest: decimal_cases)+
  show ?thesis
    using assms by (simp add: py_int_def s n digit_part_decimal filter_decimal)
qed

lemma py_int_minus_decimal:
  assumes "ds \<noteq> []" "list_all isdecimal_char ds"
  shows "py_int (CHR ''-'' # ds) = Inr (- digits_val ds)"
proof -
  have "isdecimal_char (last ds)"
    using assms by (auto simp: list_all_iff)
  then have l: "\<not> int_space_char (last ds)"
    by (auto dest: decimal_not_space int_space_is_space)
  have m: "\<not> int_space_char CHR ''-''"
    by (simp add: int_space_char_def)
  have s: "int_strip (CHR ''-'' # ds) = CHR ''-'' # ds"
    unfolding int_strip_def using assms(1) l m by (intro trim_id) simp_all
  show ?thesis
    using assms by (simp add: py_int_def s digit_part_decimal filter_decimal)
qed

lemma below_ten:
  "(j::nat) < 10 \<Longrightarrow>
   j = 0 \<or> j = 1 \<or> j = 2 \<or> j = 3 \<or> j = 4 \<or> j = 5 \<or> j = 6 \<or> j = 7 \<or> j = 8 \<or> j = 9"
  by arith

lemma digit_char_decimal: "isdecimal_char (digit_char k)"
proof -
  have "k mod 10 < 10" by simp
  from below_ten [OF this] show ?thesis
    by (auto simp: digit_char_def isdecimal_char_def)
qed

lemma digit_val_digit_char: "digit_val (digit_char k) = int (k mod 10)"
proof -
  have "k mod 10 < 10" by simp
  from below_ten [OF this] show ?thesis
    by (auto simp: digit_char_def digit_val_def)
qed

lemma str_nat_decimal: "str_nat n \<noteq> [] \<and> list_all isdecimal_char (str_nat n)"
  by (induction n rule: str_nat.induct) (subst str_nat.simps, simp add: digit_char_decimal)+

lemma digits_val_snoc: "digits_val (ds @ [c]) = 10 * digits_val ds + digit_val c"
  by (simp add: digits_val_def)

lemma digits_val_str_nat: "digits_val (str_nat n) = int n"
proof (induction n rule: str_nat.induct)
  case (1 n)
  show ?case
  proof (cases "n < 10")
    case True
    then show ?thesis
      by (subst str_nat.simps) (simp add: digits_val_def digit_val_digit_char)
  next
    case False
    with 1 have "digits_val (str_nat (n div 10)) = int (n div 10)" by simp
    with False show ?thesis
      by (subst str_nat.simps) (simp add: digits_val_snoc digit_val_digit_char zdiv_int zmod_int)
  qed
qed

lemma py_int_str_int: "py_int (str_int i) = Inr i"
  using str_nat_decimal
  by (simp add: str_int_def py_int_decimal py_int_minus_decimal digits_val_str_nat)

lemma str_int_inject: "str_int i = str_int j \<Longrightarrow> i = j"
  by (metis py_int_str_int sum.inject(2))

lemma digits_val_nonneg: "list_all isdecimal_char ds \<Longrightarrow> 0 \<le> digits_val ds"
proof (induction ds rule: rev_induct)
  case Nil
  then show ?case by (simp add: digits_val_def)
next
  case (snoc c ds)
  then have "isdecimal_char c" by simp
  then have "0 \<le> digit_val c"
    by (auto simp: isdecimal_char_def digit_val_def)
  with snoc show ?case by (simp add: digits_val_snoc)
qed

lemma str_int_nonneg_decimal:
  "0 \<le> i \<Longrightarrow> str_int i \<noteq> [] \<and> list_all isdecimal_char (str_int i)"
  by (simp add: str_int_def str_nat_decimal)

lemma decimal_isdigit: "ds \<noteq> [] \<Longrightarrow> list_all isdecimal_char ds \<Longrightarrow> isdigit ds"
  by (auto simp: isdigit_def isdigit_char_def list_all_iff)

lemma decimal_not_startswith:
  "ds \<noteq> [] \<Longrightarrow> list_all isdecimal_char ds \<Longrightarrow>
   \<not> startswith ds ''-Xmx'' \<and> \<not> startswith ds ''${''"
  by (cases ds) (auto dest: decimal_cases)

lemma match_xmx_form:
  assumes "ds \<noteq> []" "list_all isdecimal_char ds" "c = CHR ''m'' \<or> c = CHR ''M''"
  shows "match_xmx (''-Xmx'' @ ds @ c # rest) = Some (ds, c)"
proof -
  have nc: "\<not> isdecimal_char c"
    using assms(3) by (auto simp: isdecimal_char_def)
  have all: "\<forall>x\<in>set ds. isdecimal_char x"
    using assms(2) by (simp add: list_all_iff)
  have t: "takeWhile isdecimal_char (ds @ c # rest) = ds"
    using nc all by simp
  have d: "dropWhile isdecimal_char (ds @ c # rest) = c # rest"
    using nc all by simp
  have "startswith (''-Xmx'' @ ds @ c # rest) ''-Xmx''"
    by (rule startswith_append)
  moreover have "drop 4 (''-Xmx'' @ ds @ c # rest) = ds @ c # rest" by simp
  ultimately show ?thesis
    using assms(1,3) unfolding match_xmx_def by (simp only: t d Let_def if_True list.case) auto
qed

lemma str_int_chars: "\<forall>x\<in>set (str_int i). x \<noteq> CHR ''m'' \<and> x \<noteq> CHR ''M''"
  using str_nat_decimal by (auto simp: str_int_def list_all_iff dest: decimal_cases)

lemma increase_general_value_xmx:
  assumes "ds \<noteq> []" and "list_all isdecimal_char ds" and "c = CHR ''m'' \<or> c = CHR ''M''"
  shows "increase_general_value (''-Xmx'' @ ds @ c # rest) d is_java_opt is_reduce_memory =
           Inr (''-Xmx'' @ str_int (digits_val ds + d) @ [c])"
proof -
  let ?v = "''-Xmx'' @ ds @ c # rest"
  have "\<not> startswith ?v ''${''" by simp
  moreover have "\<not> isdigit ?v"
    by (simp add: isdigit_def isdigit_char_def isdecimal_char_def)
  ultimately show ?thesis
    using assms by (simp add: increase_general_value_def match_xmx_form py_int_decimal
        del: append.simps)
qed

lemma digits_val_str_int: "0 \<le> i \<Longrightarrow> digits_val (str_int i) = i"
  by (simp add: str_int_def digits_val_str_nat)

section \<open>Facts about the walk\<close>

subsection \<open>Selectors\<close>

lemma iter_all_sel: "iter_all e = e # concat (map iter_all (el_children e))"
  by (cases e) simp

lemma text_changes_sel:
  "text_changes e e' =
     (if el_text e = el_text e' then 0 else 1) + text_changes_list (el_children e) (el_children e')"
  by (cases e; cases e') simp

lemma set_children_sel [simp]:
  "el_tag (set_children cs e) = el_tag e" "el_attrib (set_children cs e) = el_attrib e"
  "el_text (set_children cs e) = el_text e" "el_tail (set_children cs e) = el_tail e"
  "el_children (set_children cs e) = cs"
  by (simp_all add: set_children_def)

lemma set_text_sel [simp]:
  "el_tag (set_text new e) = el_tag e" "el_attrib (set_text new e) = el_attrib e"
  "el_text (set_text new e) = Some new" "el_tail (set_text new e) = el_tail e"
  "el_children (set_text new e) = el_children e"
  by (simp_all add: set_text_def)

lemma set_children_same [simp]: "set_children (el_children e) e = e"
  by (cases e) (simp add: set_children_def)

subsection \<open>New values\<close>

text \<open>A result that differs from the value has no whitespace at either end.\<close>

lemma str_int_ends:
  "str_int i \<noteq> [] \<and> \<not> isspace_char (hd (str_int i)) \<and> \<not> isspace_char (last (str_int i))"
proof -
  let ?s = "str_nat (nat \<bar>i\<bar>)"
  have d: "?s \<noteq> []" "isdecimal_char (hd ?s)" "isdecimal_char (last ?s)"
    using str_nat_decimal [of "nat \<bar>i\<bar>"] by (auto simp: list_all_iff)
  then have n: "\<not> isspace_char (hd ?s)" "\<not> isspace_char (last ?s)"
    by (auto dest: decimal_not_space)
  have m: "\<not> isspace_char CHR ''-''" by (simp add: isspace_char_def)
  show ?thesis
  proof (cases "i < 0")
    case True
    then have "str_int i = CHR ''-'' # ?s" by (simp add: str_int_def abs_if)
    with d(1) n(2) m show ?thesis by simp
  next
    case False
    then have "str_int i = ?s" by (simp add: str_int_def abs_if)
    with d(1) n show ?thesis by simp
  qed
qed

lemma strip_str_int: "strip (str_int i) = str_int i"
  using str_int_ends by (intro strip_id) auto

lemma strip_xmx: "\<not> isspace_char c \<Longrightarrow> strip (''-Xmx'' @ s @ [c]) = ''-Xmx'' @ s @ [c]"
  by (intro strip_id) (auto simp: isspace_char_def)

lemma match_xmx_suffix: "match_xmx v = Some (ds, c) \<Longrightarrow> c = CHR ''m'' \<or> c = CHR ''M''"
  by (auto simp: match_xmx_def Let_def split: if_splits list.splits)

lemma increase_yarn_value_stripped:
  "increase_yarn_value v d = Inr new \<Longrightarrow> new \<noteq> v \<Longrightarrow> strip new = new"
  using strip_xmx [of "CHR ''M''"]
  by (auto simp: increase_yarn_value_def strip_str_int isspace_char_def
      split: if_splits sum.splits)

lemma increase_general_value_stripped:
  "increase_general_value v d j r = Inr new \<Longrightarrow> new \<noteq> v \<Longrightarrow> strip new = new"
  using strip_xmx [of "CHR ''M''"] strip_xmx [of "CHR ''m''"]
  by (auto simp: increase_general_value_def strip_str_int isspace_char_def
      dest!: match_xmx_suffix split: if_splits sum.splits option.splits)

subsection \<open>One step of the walk\<close>

lemma fresh_not_text:
  "strip new = new \<Longrightarrow> new \<noteq> strip value_text \<Longrightarrow> new \<noteq> value_text"
  by auto

lemma process_property_cases:
  assumes "process_property ns d y e n = Inr r"
  shows "r = (e, n) \<or>
    (\<exists>value_elem new.
       find_child (el_children e) (ns @ ''value'') = Some value_elem \<and>
       el_text value_elem \<noteq> Some new \<and>
       (el_tag e = ns @ ''property'' \<longrightarrow> eligible_property ns y e) \<and>
       r = (set_children (assign_text (ns @ ''value'') new (el_children e)) e, n + 1))"
proof (cases "find_child (el_children e) (ns @ ''name'')")
  case None
  with assms show ?thesis by (simp add: process_property_def Let_def)
next
  case name: (Some name_elem)
  show ?thesis
  proof (cases "find_child (el_children e) (ns @ ''value'')")
    case None
    with assms name show ?thesis by (simp add: process_property_def Let_def)
  next
    case val: (Some value_elem)
    from assms name val obtain name_text value_text where
      t: "el_text name_elem = Some name_text" "el_text value_elem = Some value_text"
      by (auto simp: process_property_def Let_def split: option.splits)
    show ?thesis
    proof (cases y)
      case True
      show ?thesis
      proof (cases "eligible_yarn (strip name_text)")
        case False
        with assms name val t True show ?thesis by (simp add: process_property_def Let_def)
      next
        case el: True
        from assms name val t True el obtain new where
          n: "increase_yarn_value (strip value_text) d = Inr new"
          by (auto simp: process_property_def Let_def split: sum.splits)
        show ?thesis
        proof (cases "new = strip value_text")
          case True
          with assms name val t \<open>y\<close> el n show ?thesis by (simp add: process_property_def Let_def)
        next
          case False
          with n have "strip new = new" by (rule increase_yarn_value_stripped)
          with False have "new \<noteq> value_text" by (auto dest: fresh_not_text)
          moreover have "eligible_property ns y e" if "el_tag e = ns @ ''property''"
            using that name t \<open>y\<close> el by (simp add: eligible_property_def)
          moreover have "r = (set_children (assign_text (ns @ ''value'') new (el_children e)) e, n + 1)"
            using assms name val t \<open>y\<close> el n False by (simp add: process_property_def Let_def)
          ultimately show ?thesis using val t by (intro disjI2 exI [of _ value_elem] exI [of _ new]) auto
        qed
      qed
    next
      case gen: False
      show ?thesis
      proof (cases "eligible_general (strip name_text)")
        case False
        with assms name val t gen show ?thesis by (simp add: process_property_def Let_def)
      next
        case el: True
        from assms name val t gen el obtain new where
          n: "increase_general_value (strip value_text) d
                (contains (strip name_text) ''java.opts'')
                (strip name_text = ''mapreduce.reduce.memory.mb'') = Inr new"
          by (auto simp: process_property_def Let_def split: sum.splits)
        show ?thesis
        proof (cases "new = strip value_text")
          case True
          with assms name val t gen el n show ?thesis by (simp add: process_property_def Let_def)
        next
          case False
          with n have "strip new = new" by (rule increase_general_value_stripped)
          with False have "new \<noteq> value_text" by (auto dest: fresh_not_text)
          moreover have "eligible_property ns y e" if "el_tag e = ns @ ''property''"
            using that name t gen el by (simp add: eligible_property_def)
          moreover have "r = (set_children (assign_text (ns @ ''value'') new (el_children e)) e, n + 1)"
            using assms name val t gen el n False by (simp add: process_property_def Let_def)
          ultimately show ?thesis using val t by (intro disjI2 exI [of _ value_elem] exI [of _ new]) auto
        qed
      qed
    qed
  qed
qed

lemma process_property_ineligible:
  "\<not> eligible_property ns y e \<Longrightarrow> el_tag e = ns @ ''property'' \<Longrightarrow>
   process_property ns d y e n = Inr r \<Longrightarrow> r = (e, n)"
  by (auto dest: process_property_cases)

text \<open>One step of the walk at an element: the loop body, or nothing.\<close>

lemma visit_cases:
  assumes "(if el_tag e = ns @ ''property'' then process_property ns d y e n else Inr (e, n)) = Inr r"
  shows "r = (e, n) \<or>
    (\<exists>value_elem new.
       find_child (el_children e) (ns @ ''value'') = Some value_elem \<and>
       el_text value_elem \<noteq> Some new \<and> eligible_property ns y e \<and>
       r = (set_children (assign_text (ns @ ''value'') new (el_children e)) e, n + 1))"
  using assms by (auto split: if_splits dest: process_property_cases)

lemma walk_unfold:
  assumes "walk ns d y e n = Inr (e', n')"
  obtains r cs' where
    "(if el_tag e = ns @ ''property'' then process_property ns d y e n else Inr (e, n)) = Inr r"
    "walk_children ns d y (el_children (fst r)) (snd r) = Inr (cs', n')"
    "e' = set_children cs' (fst r)"
  using assms by (subst (asm) walk.simps) (auto split: sum.splits)

lemma walk_children_Cons:
  assumes "walk_children ns d y (c # cs) n = Inr (res, n')"
  obtains c' n1 cs' where "walk ns d y c n = Inr (c', n1)"
    "walk_children ns d y cs n1 = Inr (cs', n')" "res = c' # cs'"
  using assms by (auto split: sum.splits)

lemma walk_root: "walk ns d y e n = Inr (e', n') \<Longrightarrow> root_same e e'"
  by (erule walk_unfold) (auto simp: root_same_def dest!: visit_cases)

lemma walk_children_roots:
  "walk_children ns d y cs n = Inr (cs', n') \<Longrightarrow> list_all2 root_same cs cs'"
proof (induction cs arbitrary: n cs')
  case Nil
  then show ?case by simp
next
  case (Cons c cs)
  from Cons.prems show ?case
    by (elim walk_children_Cons) (auto dest: walk_root Cons.IH)
qed

subsection \<open>Assigning a text\<close>

lemma assign_text_tags: "map el_tag (assign_text t new cs) = map el_tag cs"
  by (induction cs) auto

lemma assign_text_same_but_text: "list_all2 same_but_text cs (assign_text t new cs)"
  by (induction cs) (auto simp: same_but_text_def list_all2_refl)

lemma same_but_text_refl: "same_but_text a a"
  by (simp add: same_but_text_def)

lemma iter_all_same_but_text:
  "same_but_text a b \<Longrightarrow> list_all2 same_but_text (iter_all a) (iter_all b)"
  by (subst (1 2) iter_all_sel) (simp add: same_but_text_def list_all2_refl)

lemma concat_iter_all_same_but_text:
  "list_all2 same_but_text cs ds \<Longrightarrow>
   list_all2 same_but_text (concat (map iter_all cs)) (concat (map iter_all ds))"
  by (induction rule: list_all2_induct) (auto intro: list_all2_appendI iter_all_same_but_text)

lemma eligible_property_same_but_text:
  "same_but_text a b \<Longrightarrow> eligible_property ns y b = eligible_property ns y a"
  by (simp add: same_but_text_def eligible_property_def)

lemma kept_same_but_text: "same_but_text a b \<Longrightarrow> kept ns y b c \<Longrightarrow> kept ns y a c"
  using eligible_property_same_but_text [of a b ns y]
  by (simp add: kept_def property_value_def) (simp add: same_but_text_def)

lemma list_all2_kept_same_but_text:
  "list_all2 same_but_text xs ys \<Longrightarrow> list_all2 (kept ns y) ys zs \<Longrightarrow> list_all2 (kept ns y) xs zs"
proof -
  have "\<And>a b c. same_but_text a b \<Longrightarrow> kept ns y b c \<Longrightarrow> kept ns y a c"
    by (rule kept_same_but_text)
  then show "list_all2 same_but_text xs ys \<Longrightarrow> list_all2 (kept ns y) ys zs \<Longrightarrow>
      list_all2 (kept ns y) xs zs"
    by (rule list_all2_trans)
qed

lemma find_child_texts:
  "map el_tag cs' = map el_tag cs \<Longrightarrow> map el_text cs' = map el_text cs \<Longrightarrow>
   map_option el_text (find_child cs' t) = map_option el_text (find_child cs t)"
proof (induction cs arbitrary: cs')
  case Nil
  then show ?case by simp
next
  case (Cons c cs)
  from Cons.prems(1) obtain c' ds where r: "cs' = c' # ds" by (cases cs') auto
  with Cons.prems have h: "el_tag c' = el_tag c" "el_text c' = el_text c"
    and t: "map el_tag ds = map el_tag cs" "map el_text ds = map el_text cs"
    by simp_all
  from Cons.IH [OF t] h show ?case by (simp add: r)
qed

lemma property_value_texts:
  assumes "map el_tag (el_children e') = map el_tag (el_children e)"
    and "map el_text (el_children e') = map el_text (el_children e)"
  shows "property_value ns e' = property_value ns e"
  using find_child_texts [OF assms, of "ns @ ''value''"]
  by (auto simp: property_value_def split: option.splits)

lemma root_same_maps:
  "list_all2 root_same cs cs' \<Longrightarrow> map el_tag cs' = map el_tag cs \<and> map el_text cs' = map el_text cs"
  by (induction rule: list_all2_induct) (auto simp: root_same_def)

subsection \<open>The frame of the walk\<close>

lemma walk_kept:
  "walk ns d y e n = Inr (e', n') \<Longrightarrow> list_all2 (kept ns y) (iter_all e) (iter_all e')"
  "walk_children ns d y cs n = Inr (cs', n') \<Longrightarrow>
     list_all2 (kept ns y) (concat (map iter_all cs)) (concat (map iter_all cs'))"
proof (induction ns d y e n and ns d y cs n arbitrary: e' n' and cs' n'
    rule: walk_walk_children.induct)
  case (1 ns d y e n)
  from "1.prems" obtain r ds where
    r: "(if el_tag e = ns @ ''property'' then process_property ns d y e n else Inr (e, n)) = Inr r"
    and w: "walk_children ns d y (el_children (fst r)) (snd r) = Inr (ds, n')"
    and e': "e' = set_children ds (fst r)"
    by (rule walk_unfold)
  have ih: "list_all2 (kept ns y) (concat (map iter_all (el_children (fst r))))
      (concat (map iter_all ds))"
    using "1.IH" [OF r w] .
  have m: "map el_tag ds = map el_tag (el_children (fst r))"
    "map el_text ds = map el_text (el_children (fst r))"
    using root_same_maps [OF walk_children_roots [OF w]] by simp_all
  from visit_cases [OF r] have
    s: "root_same e (fst r)" "list_all2 same_but_text (el_children e) (el_children (fst r))"
    and i: "\<not> eligible_property ns y e \<longrightarrow> fst r = e"
    and t: "map el_tag (el_children (fst r)) = map el_tag (el_children e)"
    by (auto simp: root_same_def same_but_text_def list_all2_refl assign_text_same_but_text
        assign_text_tags)
  have k: "kept ns y e e'"
    unfolding kept_def
  proof (intro conjI impI)
    assume ne: "\<not> eligible_property ns y e"
    with i m e' show x: "map el_text (el_children e') = map el_text (el_children e)" by simp
    from m t e' have "map el_tag (el_children e') = map el_tag (el_children e)" by simp
    then show "property_value ns e' = property_value ns e"
      using x by (rule property_value_texts)
  qed (use e' s(1) m t in \<open>simp_all add: root_same_def\<close>)
  have "list_all2 (kept ns y) (concat (map iter_all (el_children e))) (concat (map iter_all ds))"
    using concat_iter_all_same_but_text [OF s(2)] ih by (rule list_all2_kept_same_but_text)
  with k show ?case
    by (subst (1 2) iter_all_sel) (simp add: e')
next
  case (2 ns d y n)
  then show ?case by simp
next
  case (3 ns d y c cs n)
  from "3.prems" obtain c' n1 ds where
    c: "walk ns d y c n = Inr (c', n1)" and
    w: "walk_children ns d y cs n1 = Inr (ds, n')" and r: "cs' = c' # ds"
    by (rule walk_children_Cons)
  have "list_all2 (kept ns y) (iter_all c) (iter_all c')"
    using "3.IH"(1) [OF c] .
  moreover have "list_all2 (kept ns y) (concat (map iter_all cs)) (concat (map iter_all ds))"
    using "3.IH"(2) [OF c] w by simp
  ultimately show ?case
    by (simp add: r list_all2_appendI)
qed

subsection \<open>The counter\<close>

lemma text_changes_list_assign:
  "find_child cs t = Some value_elem \<Longrightarrow> el_text value_elem \<noteq> Some new \<Longrightarrow>
   list_all2 root_same (assign_text t new cs) cs' \<Longrightarrow>
   text_changes_list cs cs' = Suc (text_changes_list (assign_text t new cs) cs')"
proof (induction cs arbitrary: cs')
  case Nil
  then show ?case by simp
next
  case (Cons c cs)
  show ?case
  proof (cases "el_tag c = t")
    case True
    with Cons.prems(1) have v: "value_elem = c" by simp
    from True Cons.prems(3) obtain c' ds where
      r: "cs' = c' # ds" and s: "root_same (set_text new c) c'"
      by (auto simp: list_all2_Cons1)
    from s have "el_text c' = Some new" by (simp add: root_same_def)
    with Cons.prems(2) v have "text_changes c c' = Suc (text_changes (set_text new c) c')"
      by (simp add: text_changes_sel)
    with True r show ?thesis by simp
  next
    case False
    with Cons.prems(1) have f: "find_child cs t = Some value_elem" by simp
    from False Cons.prems(3) obtain c' ds where
      r: "cs' = c' # ds" and s: "list_all2 root_same (assign_text t new cs) ds"
      by (auto simp: list_all2_Cons1)
    from Cons.IH [OF f Cons.prems(2) s] False r show ?thesis by simp
  qed
qed

lemma walk_count:
  "walk ns d y e n = Inr (e', n') \<Longrightarrow> n' = n + int (text_changes e e')"
  "walk_children ns d y cs n = Inr (cs', n') \<Longrightarrow> n' = n + int (text_changes_list cs cs')"
proof (induction ns d y e n and ns d y cs n arbitrary: e' n' and cs' n'
    rule: walk_walk_children.induct)
  case (1 ns d y e n)
  from "1.prems" obtain r ds where
    r: "(if el_tag e = ns @ ''property'' then process_property ns d y e n else Inr (e, n)) = Inr r"
    and w: "walk_children ns d y (el_children (fst r)) (snd r) = Inr (ds, n')"
    and e': "e' = set_children ds (fst r)"
    by (rule walk_unfold)
  have ih: "n' = snd r + int (text_changes_list (el_children (fst r)) ds)"
    using "1.IH" [OF r w] .
  have rs: "list_all2 root_same (el_children (fst r)) ds"
    using w by (rule walk_children_roots)
  have t: "text_changes e e' = text_changes_list (el_children e) ds"
    using walk_root [OF "1.prems"] by (simp add: text_changes_sel e' root_same_def)
  from visit_cases [OF r] show ?case
  proof
    assume "r = (e, n)"
    with ih t show ?thesis by simp
  next
    assume "\<exists>value_elem new.
       find_child (el_children e) (ns @ ''value'') = Some value_elem \<and>
       el_text value_elem \<noteq> Some new \<and> eligible_property ns y e \<and>
       r = (set_children (assign_text (ns @ ''value'') new (el_children e)) e, n + 1)"
    then obtain value_elem new where
      f: "find_child (el_children e) (ns @ ''value'') = Some value_elem" and
      x: "el_text value_elem \<noteq> Some new" and
      r': "r = (set_children (assign_text (ns @ ''value'') new (el_children e)) e, n + 1)"
      by blast
    from rs r' have "list_all2 root_same (assign_text (ns @ ''value'') new (el_children e)) ds"
      by simp
    from text_changes_list_assign [OF f x this] ih t r' show ?thesis by simp
  qed
next
  case (2 ns d y n)
  then show ?case by simp
next
  case (3 ns d y c cs n)
  from "3.prems" obtain c' n1 ds where
    c: "walk ns d y c n = Inr (c', n1)" and
    w: "walk_children ns d y cs n1 = Inr (ds, n')" and r: "cs' = c' # ds"
    by (rule walk_children_Cons)
  have "n1 = n + int (text_changes c c')"
    using "3.IH"(1) [OF c] .
  moreover have "n' = n1 + int (text_changes_list cs ds)"
    using "3.IH"(2) [OF c] w by simp
  ultimately show ?case by (simp add: r)
qed

lemma walk_unchanged:
  "walk ns d y e n = Inr (e', n') \<Longrightarrow> n' = n \<Longrightarrow> e' = e"
  "walk_children ns d y cs n = Inr (cs', n') \<Longrightarrow> n' = n \<Longrightarrow> cs' = cs"
proof (induction ns d y e n and ns d y cs n arbitrary: e' n' and cs' n'
    rule: walk_walk_children.induct)
  case (1 ns d y e n)
  from "1.prems"(1) obtain r ds where
    r: "(if el_tag e = ns @ ''property'' then process_property ns d y e n else Inr (e, n)) = Inr r"
    and w: "walk_children ns d y (el_children (fst r)) (snd r) = Inr (ds, n')"
    and e': "e' = set_children ds (fst r)"
    by (rule walk_unfold)
  have "snd r \<le> n'" using walk_count(2) [OF w] by simp
  moreover have "r = (e, n) \<or> snd r = n + 1" using visit_cases [OF r] by auto
  ultimately have u: "r = (e, n)" using "1.prems"(2) by auto
  with "1.IH" [OF r w] "1.prems"(2) have "ds = el_children e" by simp
  with u e' show ?case by simp
next
  case (2 ns d y n)
  then show ?case by simp
next
  case (3 ns d y c cs n)
  from "3.prems"(1) obtain c' n1 ds where
    c: "walk ns d y c n = Inr (c', n1)" and
    w: "walk_children ns d y cs n1 = Inr (ds, n')" and r: "cs' = c' # ds"
    by (rule walk_children_Cons)
  have "n \<le> n1" "n1 \<le> n'"
    using walk_count(1) [OF c] walk_count(2) [OF w] by simp_all
  with "3.prems"(2) have e: "n1 = n" "n' = n1" by simp_all
  from "3.IH"(1) [OF c e(1)] have "c' = c" .
  moreover from "3.IH"(2) [OF c] w e(2) have "ds = cs" by simp
  ultimately show ?case by (simp add: r)
qed

lemma walk_no_eligible:
  "walk ns d y e n = Inr (e', n') \<Longrightarrow>
     \<not> list_ex (eligible_property ns y) (iter_all e) \<Longrightarrow> n' = n"
  "walk_children ns d y cs n = Inr (cs', n') \<Longrightarrow>
     \<not> list_ex (eligible_property ns y) (concat (map iter_all cs)) \<Longrightarrow> n' = n"
proof (induction ns d y e n and ns d y cs n arbitrary: e' n' and cs' n'
    rule: walk_walk_children.induct)
  case (1 ns d y e n)
  from "1.prems"(1) obtain r ds where
    r: "(if el_tag e = ns @ ''property'' then process_property ns d y e n else Inr (e, n)) = Inr r"
    and w: "walk_children ns d y (el_children (fst r)) (snd r) = Inr (ds, n')"
    and e': "e' = set_children ds (fst r)"
    by (rule walk_unfold)
  from "1.prems"(2) have ne: "\<not> eligible_property ns y e"
    and nc: "\<not> list_ex (eligible_property ns y) (concat (map iter_all (el_children e)))"
    by (subst (asm) iter_all_sel, simp)+
  from visit_cases [OF r] ne have u: "r = (e, n)" by auto
  with "1.IH" [OF r w] nc show ?case by simp
next
  case (2 ns d y n)
  then show ?case by simp
next
  case (3 ns d y c cs n)
  from "3.prems"(1) obtain c' n1 ds where
    c: "walk ns d y c n = Inr (c', n1)" and
    w: "walk_children ns d y cs n1 = Inr (ds, n')" and r: "cs' = c' # ds"
    by (rule walk_children_Cons)
  from "3.prems"(2) have a: "\<not> list_ex (eligible_property ns y) (iter_all c)"
    and b: "\<not> list_ex (eligible_property ns y) (concat (map iter_all cs))"
    by (simp_all add: list_ex_iff)
  from "3.IH"(1) [OF c a] have "n1 = n" .
  moreover from "3.IH"(2) [OF c] w b have "n' = n1" by simp
  ultimately show ?case by simp
qed

subsection \<open>The loop body and the whole call\<close>

lemma find_child_assign_text:
  "find_child cs t = Some v \<Longrightarrow> find_child (assign_text t new cs) t = Some (set_text new v)"
  by (induction cs) (auto split: if_splits)

lemma text_changes_same: "text_changes e e = 0"
proof (induction e)
  case (Element t a x tail cs)
  then have "text_changes_list cs cs = 0"
    by (induction cs) simp_all
  then show ?case by simp
qed

lemma startswith_hd: "startswith s (c # p) \<Longrightarrow> s \<noteq> [] \<and> hd s = c"
  by (cases s) auto

lemma str_int_hd: "hd (str_int i) = CHR ''-'' \<or> isdecimal_char (hd (str_int i))"
proof (cases "i < 0")
  case True
  then show ?thesis by (simp add: str_int_def)
next
  case False
  have "str_nat (nat i) \<noteq> []" "list_all isdecimal_char (str_nat (nat i))"
    using str_nat_decimal [of "nat i"] by simp_all
  then have "isdecimal_char (hd (str_nat (nat i)))"
    by (cases "str_nat (nat i)") simp_all
  with False show ?thesis by (simp add: str_int_def)
qed

lemma str_int_not_placeholder: "\<not> startswith (str_int i) ''${''"
proof
  assume "startswith (str_int i) ''${''"
  then have "hd (str_int i) = CHR ''$''" by (auto dest: startswith_hd)
  with str_int_hd [of i] show False by (auto dest: decimal_cases)
qed

lemma process_xml_Inr:
  assumes "process_xml root d y = Inr run"
  shows "walk (detect_ns (el_tag root)) d y root 0 = Inr (final_tree run, final_count run) \<and>
         returned run = PyNone \<and>
         written run = (if 0 < final_count run then Some (final_tree run) else None)"
  using assms by (auto simp: process_xml_def Let_def split: sum.splits)

lemma no_eligible_no_change:
  assumes "process_xml root d y = Inr run"
    and "\<not> list_ex (eligible_property (detect_ns (el_tag root)) y) (iter_all root)"
  shows "final_count run = 0 \<and> written run = None \<and> final_tree run = root"
proof -
  from process_xml_Inr [OF assms(1)] have
    w: "walk (detect_ns (el_tag root)) d y root 0 = Inr (final_tree run, final_count run)"
    and x: "written run = (if 0 < final_count run then Some (final_tree run) else None)"
    by simp_all
  from walk_no_eligible(1) [OF w assms(2)] have c: "final_count run = 0" .
  from walk_unchanged(1) [OF w c] c x show ?thesis by simp
qed

subsection \<open>Placeholders under the walk\<close>

lemma process_property_placeholder:
  assumes "find_child (el_children prop) (ns @ ''name'') = Some name_elem"
    and "el_text name_elem = Some name_text"
    and "property_value ns prop = Some value_text"
    and "eligible_general (strip name_text)"
    and "startswith (strip value_text) ''${''"
  shows "\<exists>prop'. process_property ns d False prop n = Inr (prop', n + 1) \<and>
           property_value ns prop' =
             Some (if strip name_text = ''mapreduce.reduce.memory.mb''
                   then ''-Xmx'' @ str_int (d - 512) @ ''M'' else str_int d)"
proof -
  let ?new = "if strip name_text = ''mapreduce.reduce.memory.mb''
              then ''-Xmx'' @ str_int (d - 512) @ ''M'' else str_int d"
  let ?prop' = "set_children (assign_text (ns @ ''value'') ?new (el_children prop)) prop"
  from assms(3) obtain value_elem where
    v: "find_child (el_children prop) (ns @ ''value'') = Some value_elem"
    and vt: "el_text value_elem = Some value_text"
    by (auto simp: property_value_def split: option.splits)
  have t: "increase_general_value (strip value_text) d (contains (strip name_text) ''java.opts'')
      (strip name_text = ''mapreduce.reduce.memory.mb'') = Inr ?new"
    using assms(5) by (simp add: increase_general_value_def)
  have "\<not> startswith ?new ''${''"
    by (simp add: str_int_not_placeholder)
  with assms(5) have ne: "?new \<noteq> strip value_text" by auto
  have "process_property ns d False prop n = Inr (?prop', n + 1)"
    using assms(1,2,4) v vt ne unfolding process_property_def
    by (simp only: option.case Let_def t sum.case if_True if_False simp_thms)
  moreover have "property_value ns ?prop' = Some ?new"
    using find_child_assign_text [OF v] by (simp add: property_value_def)
  ultimately show ?thesis by blast
qed

lemma placeholder_name_same_but_text:
  assumes "same_but_text a b"
  shows "placeholder_name ns b = placeholder_name ns a"
proof -
  from assms have "el_tag b = el_tag a" "el_children b = el_children a"
    by (simp_all add: same_but_text_def)
  moreover from this have "property_value ns b = property_value ns a"
    by (simp add: property_value_def)
  ultimately show ?thesis by (simp add: placeholder_name_def cong: option.case_cong)
qed

lemma placeholder_done_same_but_text:
  "same_but_text a b \<Longrightarrow> placeholder_done ns d b c \<Longrightarrow> placeholder_done ns d a c"
  by (simp add: placeholder_done_def placeholder_name_same_but_text)

lemma placeholder_name_Some:
  assumes "placeholder_name ns e = Some name"
  obtains name_elem name_text value_text where
    "el_tag e = ns @ ''property''"
    "find_child (el_children e) (ns @ ''name'') = Some name_elem"
    "el_text name_elem = Some name_text"
    "property_value ns e = Some value_text"
    "eligible_general (strip name_text)"
    "startswith (strip value_text) ''${''"
    "name = strip name_text"
  using assms by (auto simp: placeholder_name_def split: if_splits option.splits)

lemma list_all2_placeholder_done_same_but_text:
  "list_all2 same_but_text xs ys \<Longrightarrow> list_all2 (placeholder_done ns d) ys zs \<Longrightarrow>
   list_all2 (placeholder_done ns d) xs zs"
proof -
  have "\<And>a b c. same_but_text a b \<Longrightarrow> placeholder_done ns d b c \<Longrightarrow> placeholder_done ns d a c"
    by (rule placeholder_done_same_but_text)
  then show "list_all2 same_but_text xs ys \<Longrightarrow> list_all2 (placeholder_done ns d) ys zs \<Longrightarrow>
      list_all2 (placeholder_done ns d) xs zs"
    by (rule list_all2_trans)
qed

lemma walk_placeholder_done:
  "walk ns d y e n = Inr (e', n') \<Longrightarrow> \<not> y \<Longrightarrow>
     list_all2 (placeholder_done ns d) (iter_all e) (iter_all e')"
  "walk_children ns d y cs n = Inr (cs', n') \<Longrightarrow> \<not> y \<Longrightarrow>
     list_all2 (placeholder_done ns d) (concat (map iter_all cs)) (concat (map iter_all cs'))"
proof (induction ns d y e n and ns d y cs n arbitrary: e' n' and cs' n'
    rule: walk_walk_children.induct)
  case (1 ns d y e n)
  from "1.prems"(1) obtain r ds where
    r: "(if el_tag e = ns @ ''property'' then process_property ns d y e n else Inr (e, n)) = Inr r"
    and w: "walk_children ns d y (el_children (fst r)) (snd r) = Inr (ds, n')"
    and e': "e' = set_children ds (fst r)"
    by (rule walk_unfold)
  have y: "y = False" using "1.prems"(2) by simp
  have ih: "list_all2 (placeholder_done ns d) (concat (map iter_all (el_children (fst r))))
      (concat (map iter_all ds))"
    using "1.IH" [OF r w "1.prems"(2)] .
  have m: "map el_tag ds = map el_tag (el_children (fst r))"
    "map el_text ds = map el_text (el_children (fst r))"
    using root_same_maps [OF walk_children_roots [OF w]] by simp_all
  have pv: "property_value ns e' = property_value ns (fst r)"
    using m by (intro property_value_texts) (simp_all add: e')
  from visit_cases [OF r] have
    s: "list_all2 same_but_text (el_children e) (el_children (fst r))"
    by (auto simp: list_all2_refl same_but_text_def assign_text_same_but_text)
  have k: "placeholder_done ns d e e'"
  proof (cases "placeholder_name ns e")
    case None
    then show ?thesis by (simp add: placeholder_done_def)
  next
    case (Some name)
    then obtain name_elem name_text value_text where
      tag: "el_tag e = ns @ ''property''" and
      a: "find_child (el_children e) (ns @ ''name'') = Some name_elem"
        "el_text name_elem = Some name_text"
        "property_value ns e = Some value_text"
        "eligible_general (strip name_text)"
        "startswith (strip value_text) ''${''" and
      nm: "name = strip name_text"
      by (rule placeholder_name_Some)
    from process_property_placeholder [OF a, of d n] obtain prop' where
      p: "process_property ns d False e n = Inr (prop', n + 1)" and
      q: "property_value ns prop' =
           Some (if strip name_text = ''mapreduce.reduce.memory.mb''
                 then ''-Xmx'' @ str_int (d - 512) @ ''M'' else str_int d)"
      by blast
    from r tag y p have "r = (prop', n + 1)" by simp
    then have "fst r = prop'" by simp
    with pv q Some nm show ?thesis by (simp add: placeholder_done_def)
  qed
  have "list_all2 (placeholder_done ns d) (concat (map iter_all (el_children e)))
      (concat (map iter_all ds))"
    using concat_iter_all_same_but_text [OF s] ih
    by (rule list_all2_placeholder_done_same_but_text)
  with k show ?case
    by (subst (1 2) iter_all_sel) (simp add: e')
next
  case (2 ns d y n)
  then show ?case by simp
next
  case (3 ns d y c cs n)
  from "3.prems"(1) obtain c' n1 ds where
    c: "walk ns d y c n = Inr (c', n1)" and
    w: "walk_children ns d y cs n1 = Inr (ds, n')" and r: "cs' = c' # ds"
    by (rule walk_children_Cons)
  have "list_all2 (placeholder_done ns d) (iter_all c) (iter_all c')"
    using "3.IH"(1) [OF c "3.prems"(2)] .
  moreover have "list_all2 (placeholder_done ns d) (concat (map iter_all cs))
      (concat (map iter_all ds))"
    using "3.IH"(2) [OF c] w "3.prems"(2) by simp
  ultimately show ?case
    unfolding r by (simp only: list.map concat.simps) (rule list_all2_appendI)
qed

lemma placeholder_value_stripped:
  "strip (if name = ''mapreduce.reduce.memory.mb''
          then ''-Xmx'' @ str_int (d - 512) @ ''M'' else str_int d) =
   (if name = ''mapreduce.reduce.memory.mb''
    then ''-Xmx'' @ str_int (d - 512) @ ''M'' else str_int d)"
  using strip_xmx [of "CHR ''M''" "str_int (d - 512)"]
  by (simp add: strip_str_int isspace_char_def)

section \<open>Properties of the Value Transformer\<close>

text \<open>
  C1. The claim: a value in neither YARN format comes back unchanged and nothing is
  raised, also for \<^verbatim>\<open>-XmxabcM\<close>. The code takes the first branch on the prefix and the
  suffix alone and then calls \<^verbatim>\<open>int('abc')\<close>, which raises \<^verbatim>\<open>ValueError\<close>; the general
  rule, which checks the digits, returns the same value unchanged.
\<close>

theorem increase_yarn_value_raises:
  "increase_yarn_value ''-XmxabcM'' 1024 = Inl ValueError \<and>
   increase_general_value ''-XmxabcM'' 1024 False False = Inr ''-XmxabcM''"
  by (simp add: increase_yarn_value_def increase_general_value_def endswith_def py_int_def
      int_strip_def int_space_char_def isdecimal_char_def isdigit_def isdigit_char_def match_xmx_def)

text \<open>
  C3. A value that starts with the placeholder marker becomes \<^verbatim>\<open>-Xmx\<close>, the decimal
  string of \<open>d - 512\<close> and \<^verbatim>\<open>M\<close> when \<open>is_reduce_memory\<close> holds, and the decimal
  string of \<open>d\<close> otherwise; nothing is raised.
\<close>

theorem placeholder_value:
  "startswith value ''${'' \<Longrightarrow>
   increase_general_value value d is_java_opt True = Inr (''-Xmx'' @ str_int (d - 512) @ ''M'') \<and>
   increase_general_value value d is_java_opt False = Inr (str_int d)"
  by (simp add: increase_general_value_def)

theorem placeholder_value_witness:
  "startswith ''${mapreduce.reduce.memory.mb}'' ''${'' \<and>
   increase_general_value ''${mapreduce.reduce.memory.mb}'' 1024 False True = Inr ''-Xmx512M'' \<and>
   increase_general_value ''${mapreduce.reduce.memory.mb}'' 1024 False False = Inr ''1024''"
  using placeholder_value [of "''${mapreduce.reduce.memory.mb}''" 1024 False]
  by (simp add: str_int_def str_nat.simps digit_char_def)

text \<open>
  C10. The result of \<^verbatim>\<open>increase_general_value\<close> does not depend on \<open>is_java_opt\<close>:
  two runs that differ in that argument only return the same value or raise the
  same error.
\<close>

theorem is_java_opt_ignored:
  "increase_general_value value d is_java_opt is_reduce_memory =
   increase_general_value value d is_java_opt' is_reduce_memory"
  by (simp add: increase_general_value_def)

text \<open>
  C9. A value that starts with \<^verbatim>\<open>-Xmx\<close>, a non-empty run of decimal digits and
  \<^verbatim>\<open>m\<close> or \<^verbatim>\<open>M\<close> is matched at its start only: the result is \<^verbatim>\<open>-Xmx\<close>, the
  digits plus the delta and the suffix letter, whatever follows the letter. When
  something does follow, the result differs from the value.
\<close>

theorem xmx_prefix_match:
  assumes "ds \<noteq> []" and "list_all isdecimal_char ds" and "c = CHR ''m'' \<or> c = CHR ''M''"
  shows "increase_general_value (''-Xmx'' @ ds @ c # rest) d is_java_opt is_reduce_memory =
           Inr (''-Xmx'' @ str_int (digits_val ds + d) @ [c]) \<and>
         (rest \<noteq> [] \<longrightarrow>
            ''-Xmx'' @ str_int (digits_val ds + d) @ [c] \<noteq> ''-Xmx'' @ ds @ c # rest)"
proof
  show "increase_general_value (''-Xmx'' @ ds @ c # rest) d is_java_opt is_reduce_memory =
      Inr (''-Xmx'' @ str_int (digits_val ds + d) @ [c])"
    using assms by (rule increase_general_value_xmx)
next
  show "rest \<noteq> [] \<longrightarrow>
      ''-Xmx'' @ str_int (digits_val ds + d) @ [c] \<noteq> ''-Xmx'' @ ds @ c # rest"
  proof (intro impI notI)
    assume r: "rest \<noteq> []"
    assume "''-Xmx'' @ str_int (digits_val ds + d) @ [c] = ''-Xmx'' @ ds @ c # rest"
    then have e: "str_int (digits_val ds + d) @ [c] = ds @ c # rest" by simp
    have "\<forall>x\<in>set (str_int (digits_val ds + d)). x \<noteq> c"
      using str_int_chars assms(3) by blast
    then have a: "takeWhile (\<lambda>x. x \<noteq> c) (str_int (digits_val ds + d) @ [c]) =
        str_int (digits_val ds + d)"
      by simp
    have "\<forall>x\<in>set ds. x \<noteq> c"
      using assms(2,3) by (auto simp: list_all_iff dest: decimal_cases)
    then have b: "takeWhile (\<lambda>x. x \<noteq> c) (ds @ c # rest) = ds" by simp
    from a b e have "str_int (digits_val ds + d) = ds" by simp
    with e r show False by simp
  qed
qed

theorem xmx_prefix_match_witness:
  "''1024'' \<noteq> [] \<and> list_all isdecimal_char ''1024'' \<and> '' -XX:+UseG1GC'' \<noteq> [] \<and>
   increase_general_value ''-Xmx1024m -XX:+UseG1GC'' 1024 False False = Inr ''-Xmx2048m'' \<and>
   ''-Xmx2048m'' \<noteq> ''-Xmx1024m -XX:+UseG1GC''"
  using xmx_prefix_match [of "''1024''" "CHR ''m''" "'' -XX:+UseG1GC''" 1024 False False]
  by (simp add: isdecimal_char_def digits_val_def digit_val_def str_int_def str_nat.simps
      digit_char_def)

text \<open>
  C7. For a positive delta and a value that is a non-empty run of decimal digits, or
  such a run between \<^verbatim>\<open>-Xmx\<close> and the suffix letter, both transformers return a
  result, return a result again on that result, and the two results differ.
\<close>

theorem no_false_idempotence:
  assumes "0 < d" and "ds \<noteq> []" and "list_all isdecimal_char ds"
    and "c = CHR ''m'' \<or> c = CHR ''M''"
  shows "increase_yarn_value ds d = Inr (str_int (digits_val ds + d)) \<and>
         increase_yarn_value (str_int (digits_val ds + d)) d = Inr (str_int (digits_val ds + d + d)) \<and>
         increase_yarn_value (''-Xmx'' @ ds @ ''M'') d =
           Inr (''-Xmx'' @ str_int (digits_val ds + d) @ ''M'') \<and>
         increase_yarn_value (''-Xmx'' @ str_int (digits_val ds + d) @ ''M'') d =
           Inr (''-Xmx'' @ str_int (digits_val ds + d + d) @ ''M'') \<and>
         increase_general_value ds d is_java_opt is_reduce_memory =
           Inr (str_int (digits_val ds + d)) \<and>
         increase_general_value (str_int (digits_val ds + d)) d is_java_opt is_reduce_memory =
           Inr (str_int (digits_val ds + d + d)) \<and>
         increase_general_value (''-Xmx'' @ ds @ [c]) d is_java_opt is_reduce_memory =
           Inr (''-Xmx'' @ str_int (digits_val ds + d) @ [c]) \<and>
         increase_general_value (''-Xmx'' @ str_int (digits_val ds + d) @ [c]) d
             is_java_opt is_reduce_memory =
           Inr (''-Xmx'' @ str_int (digits_val ds + d + d) @ [c]) \<and>
         str_int (digits_val ds + d + d) \<noteq> str_int (digits_val ds + d) \<and>
         ''-Xmx'' @ str_int (digits_val ds + d + d) @ ''M'' \<noteq>
           ''-Xmx'' @ str_int (digits_val ds + d) @ ''M'' \<and>
         ''-Xmx'' @ str_int (digits_val ds + d + d) @ [c] \<noteq>
           ''-Xmx'' @ str_int (digits_val ds + d) @ [c]"
proof -
  let ?n = "digits_val ds"
  have n: "0 \<le> ?n" using assms(3) by (rule digits_val_nonneg)
  then have k: "0 \<le> ?n + d" using assms(1) by simp
  let ?s = "str_int (?n + d)"
  have s: "?s \<noteq> []" "list_all isdecimal_char ?s"
    using str_int_nonneg_decimal [OF k] by simp_all
  have ps: "py_int ?s = Inr (?n + d)" by (rule py_int_str_int)
  have y1: "increase_yarn_value ds d = Inr ?s"
    using assms(2,3)
    by (simp add: increase_yarn_value_def decimal_not_startswith decimal_isdigit py_int_decimal)
  have y2: "increase_yarn_value ?s d = Inr (str_int (?n + d + d))"
    using s by (simp add: increase_yarn_value_def decimal_not_startswith decimal_isdigit ps)
  have sl: "\<And>xs. drop 4 (take (length (''-Xmx'' @ xs @ ''M'') - 1) (''-Xmx'' @ xs @ ''M'')) = xs"
    by simp
  have sw: "\<And>xs. startswith (''-Xmx'' @ xs @ ''M'') ''-Xmx''"
    by (rule startswith_append)
  have ew: "\<And>xs. endswith (''-Xmx'' @ xs @ ''M'') ''M''"
    using endswith_append [of "''-Xmx'' @ xs" "''M''" for xs] by simp
  have y3: "increase_yarn_value (''-Xmx'' @ ds @ ''M'') d = Inr (''-Xmx'' @ ?s @ ''M'')"
    using assms(2,3) unfolding increase_yarn_value_def
    by (simp only: sl sw ew) (simp add: py_int_decimal)
  have y4: "increase_yarn_value (''-Xmx'' @ ?s @ ''M'') d =
      Inr (''-Xmx'' @ str_int (?n + d + d) @ ''M'')"
    unfolding increase_yarn_value_def by (simp only: sl sw ew) (simp add: ps)
  have g1: "increase_general_value ds d is_java_opt is_reduce_memory = Inr ?s"
    using assms(2,3)
    by (simp add: increase_general_value_def decimal_not_startswith decimal_isdigit py_int_decimal)
  have g2: "increase_general_value ?s d is_java_opt is_reduce_memory = Inr (str_int (?n + d + d))"
    using s by (simp add: increase_general_value_def decimal_not_startswith decimal_isdigit ps)
  have g3: "increase_general_value (''-Xmx'' @ ds @ [c]) d is_java_opt is_reduce_memory =
      Inr (''-Xmx'' @ ?s @ [c])"
    using increase_general_value_xmx [OF assms(2,3,4), of "[]" d] by simp
  have g4: "increase_general_value (''-Xmx'' @ ?s @ [c]) d is_java_opt is_reduce_memory =
      Inr (''-Xmx'' @ str_int (?n + d + d) @ [c])"
    using increase_general_value_xmx [OF s assms(4), of "[]" d] by (simp add: digits_val_str_int k)
  have ne: "str_int (?n + d + d) \<noteq> ?s"
    using assms(1) by (auto dest: str_int_inject)
  from ne have ne': "''-Xmx'' @ str_int (?n + d + d) @ ''M'' \<noteq> ''-Xmx'' @ ?s @ ''M''"
    "''-Xmx'' @ str_int (?n + d + d) @ [c] \<noteq> ''-Xmx'' @ ?s @ [c]"
    by simp_all
  from y1 y2 y3 y4 g1 g2 g3 g4 ne ne' show ?thesis by blast
qed

theorem no_false_idempotence_witness:
  "(0::int) < 1024 \<and> ''4096'' \<noteq> [] \<and> list_all isdecimal_char ''4096'' \<and>
   increase_yarn_value ''4096'' 1024 = Inr ''5120'' \<and>
   increase_yarn_value ''5120'' 1024 = Inr ''6144'' \<and>
   increase_yarn_value ''-Xmx4096M'' 1024 = Inr ''-Xmx5120M'' \<and>
   increase_yarn_value ''-Xmx5120M'' 1024 = Inr ''-Xmx6144M'' \<and>
   increase_general_value ''4096'' 1024 False False = Inr ''5120'' \<and>
   increase_general_value ''5120'' 1024 False False = Inr ''6144'' \<and>
   increase_general_value ''-Xmx4096m'' 1024 False False = Inr ''-Xmx5120m'' \<and>
   increase_general_value ''-Xmx5120m'' 1024 False False = Inr ''-Xmx6144m'' \<and>
   ''6144'' \<noteq> ''5120''"
  using no_false_idempotence [of 1024 "''4096''" "CHR ''m''" False False]
  by (simp add: isdecimal_char_def digits_val_def digit_val_def str_int_def str_nat.simps
      digit_char_def)

section \<open>Properties of the Document Mutator\<close>



text \<open>
  C6. When \<^verbatim>\<open>process_xml\<close> comes to its end in the general mode, every eligible
  property whose stripped value starts with the placeholder marker has, at its place
  in the final tree, the \<^verbatim>\<open>-Xmx\<close> string as its value only when its stripped name is
  exactly \<^verbatim>\<open>mapreduce.reduce.memory.mb\<close>; under any other eligible name, such as
  \<^verbatim>\<open>x.mapreduce.reduce.memory.mb\<close>, the value is the decimal string of the delta. That
  tree is written.
\<close>

theorem is_reduce_memory_exact:
  assumes "process_xml root d False = Inr run"
    and "ns = detect_ns (el_tag root)"
    and "i < length (iter_all root)"
    and "prop = iter_all root ! i"
    and "el_tag prop = ns @ ''property''"
    and "find_child (el_children prop) (ns @ ''name'') = Some name_elem"
    and "el_text name_elem = Some name_text"
    and "eligible_general (strip name_text)"
    and "property_value ns prop = Some value_text"
    and "startswith (strip value_text) ''${''"
  shows "i < length (iter_all (final_tree run)) \<and>
         property_value ns (iter_all (final_tree run) ! i) =
           Some (if strip name_text = ''mapreduce.reduce.memory.mb''
                 then ''-Xmx'' @ str_int (d - 512) @ ''M'' else str_int d) \<and>
         written run = Some (final_tree run)"
proof -
  let ?new = "if strip name_text = ''mapreduce.reduce.memory.mb''
              then ''-Xmx'' @ str_int (d - 512) @ ''M'' else str_int d"
  from process_xml_Inr [OF assms(1)] assms(2) have
    w: "walk ns d False root 0 = Inr (final_tree run, final_count run)"
    and x: "written run = (if 0 < final_count run then Some (final_tree run) else None)"
    by simp_all
  have l: "list_all2 (placeholder_done ns d) (iter_all root) (iter_all (final_tree run))"
    using walk_placeholder_done(1) [OF w] by simp
  then have len: "length (iter_all (final_tree run)) = length (iter_all root)"
    by (simp add: list_all2_lengthD)
  have "placeholder_done ns d (iter_all root ! i) (iter_all (final_tree run) ! i)"
    using l assms(3) by (rule list_all2_nthD)
  moreover have "placeholder_name ns prop = Some (strip name_text)"
    using assms(5-10) by (simp add: placeholder_name_def)
  ultimately have v: "property_value ns (iter_all (final_tree run) ! i) = Some ?new"
    using assms(4) by (simp add: placeholder_done_def)
  have c: "final_count run \<noteq> 0"
  proof
    assume "final_count run = 0"
    with walk_unchanged(1) [OF w] have "final_tree run = root" by simp
    with v assms(4,9) have "value_text = ?new" by simp
    with assms(10) have "startswith (strip ?new) ''${''" by simp
    then have "startswith ?new ''${''"
      by (simp only: placeholder_value_stripped)
    then show False
      by (simp add: str_int_not_placeholder split: if_splits)
  qed
  have "0 \<le> final_count run"
    using walk_count(1) [OF w] by simp
  with c have "0 < final_count run" by simp
  with x v len assms(3) show ?thesis by simp
qed

theorem is_reduce_memory_exact_witness:
  "process_xml doc_placeholders 1024 False =
     Inr \<lparr>returned = PyNone, final_tree = tree_placeholders, final_count = 2,
          written = Some tree_placeholders\<rparr> \<and>
   detect_ns (el_tag doc_placeholders) = '''' \<and>
   iter_all doc_placeholders ! 1 = prop_prefixed_reduce \<and>
   find_child (el_children prop_prefixed_reduce) ('''' @ ''name'') =
     Some (Element ''name'' [] (Some ''x.mapreduce.reduce.memory.mb'') None []) \<and>
   eligible_general (strip ''x.mapreduce.reduce.memory.mb'') \<and>
   property_value '''' prop_prefixed_reduce = Some ''${reduceMemory}'' \<and>
   startswith (strip ''${reduceMemory}'') ''${'' \<and>
   property_value '''' (iter_all tree_placeholders ! 1) = Some ''1024''"
proof -
  let ?run = "\<lparr>returned = PyNone, final_tree = tree_placeholders, final_count = 2,
      written = Some tree_placeholders\<rparr>"
  have h: "process_xml doc_placeholders 1024 False = Inr ?run" by code_simp
  have n: "'''' = detect_ns (el_tag doc_placeholders)" by code_simp
  have l: "1 < length (iter_all doc_placeholders)" by code_simp
  have p: "prop_prefixed_reduce = iter_all doc_placeholders ! 1" by code_simp
  have t: "el_tag prop_prefixed_reduce = '''' @ ''property''" by code_simp
  have a: "find_child (el_children prop_prefixed_reduce) ('''' @ ''name'') =
      Some (Element ''name'' [] (Some ''x.mapreduce.reduce.memory.mb'') None [])"
    by code_simp
  have x: "el_text (Element ''name'' [] (Some ''x.mapreduce.reduce.memory.mb'') None []) =
      Some ''x.mapreduce.reduce.memory.mb''"
    by simp
  have e: "eligible_general (strip ''x.mapreduce.reduce.memory.mb'')" by code_simp
  have v: "property_value '''' prop_prefixed_reduce = Some ''${reduceMemory}''" by code_simp
  have s: "startswith (strip ''${reduceMemory}'') ''${''" by code_simp
  have m: "strip ''x.mapreduce.reduce.memory.mb'' \<noteq> ''mapreduce.reduce.memory.mb''"
    by code_simp
  have k: "str_int 1024 = ''1024''" by code_simp
  from is_reduce_memory_exact [OF h n l p t a x e v s]
  have "property_value '''' (iter_all tree_placeholders ! 1) = Some ''1024''"
    by (simp add: m k)
  with h n p a e v s show ?thesis by simp
qed

text \<open>
  C4. When \<^verbatim>\<open>process_xml\<close> comes to its end, every element of the input has its
  counterpart at the same place of the final tree, with the same tag, attributes, tail
  and child tags; and for every element that is not an eligible property of the mode
  (by the stripped text of its name child) the texts of its children, so its value,
  are the ones of the input. What is written, if anything, is that final tree.
\<close>

theorem ineligible_untouched:
  assumes "process_xml root d yarn_only = Inr run"
  shows "list_all2 (kept (detect_ns (el_tag root)) yarn_only)
           (iter_all root) (iter_all (final_tree run)) \<and>
         (written run = None \<or> written run = Some (final_tree run))"
proof -
  from process_xml_Inr [OF assms] have
    w: "walk (detect_ns (el_tag root)) d yarn_only root 0 = Inr (final_tree run, final_count run)"
    and x: "written run = (if 0 < final_count run then Some (final_tree run) else None)"
    by simp_all
  from walk_kept(1) [OF w] x show ?thesis by simp
qed

theorem ineligible_untouched_witness:
  "process_xml doc_mixed 1024 False =
     Inr \<lparr>returned = PyNone, final_tree = tree_mixed, final_count = 1,
          written = Some tree_mixed\<rparr> \<and>
   \<not> eligible_property ''{uri:oozie:workflow:0.5}'' False (iter_all doc_mixed ! 4) \<and>
   property_value ''{uri:oozie:workflow:0.5}'' (iter_all doc_mixed ! 4) = Some ''512'' \<and>
   property_value ''{uri:oozie:workflow:0.5}'' (iter_all tree_mixed ! 4) = Some ''512''"
proof -
  let ?run = "\<lparr>returned = PyNone, final_tree = tree_mixed, final_count = 1,
      written = Some tree_mixed\<rparr>"
  have h: "process_xml doc_mixed 1024 False = Inr ?run" by code_simp
  have n: "detect_ns (el_tag doc_mixed) = ''{uri:oozie:workflow:0.5}''" by code_simp
  have l: "4 < length (iter_all doc_mixed)" by code_simp
  have e: "\<not> eligible_property ''{uri:oozie:workflow:0.5}'' False (iter_all doc_mixed ! 4)"
    by code_simp
  have v: "property_value ''{uri:oozie:workflow:0.5}'' (iter_all doc_mixed ! 4) = Some ''512''"
    by code_simp
  from ineligible_untouched [OF h] have
    "list_all2 (kept ''{uri:oozie:workflow:0.5}'' False) (iter_all doc_mixed) (iter_all tree_mixed)"
    by (simp add: n)
  then have "kept ''{uri:oozie:workflow:0.5}'' False (iter_all doc_mixed ! 4) (iter_all tree_mixed ! 4)"
    using l by (rule list_all2_nthD)
  with e v have "property_value ''{uri:oozie:workflow:0.5}'' (iter_all tree_mixed ! 4) = Some ''512''"
    by (simp add: kept_def)
  with h e v show ?thesis by blast
qed

text \<open>
  C2, as amended. \<^verbatim>\<open>process_xml\<close> hands no result to its caller: it returns \<^verbatim>\<open>None\<close>.
  When the call comes to its end, the counter it ends with is not negative and equals
  the number of texts that differ between the input and the final tree, the tree is
  written exactly when the counter is positive, and the counter is positive exactly
  when the tree differs from the input.
\<close>

theorem modified_count_counts:
  assumes "process_xml root d yarn_only = Inr run"
  shows "returned run = PyNone \<and>
         0 \<le> final_count run \<and>
         final_count run = int (text_changes root (final_tree run)) \<and>
         written run = (if 0 < final_count run then Some (final_tree run) else None) \<and>
         (0 < final_count run) = (final_tree run \<noteq> root)"
proof -
  from process_xml_Inr [OF assms] have
    w: "walk (detect_ns (el_tag root)) d yarn_only root 0 = Inr (final_tree run, final_count run)"
    and r: "returned run = PyNone"
    and x: "written run = (if 0 < final_count run then Some (final_tree run) else None)"
    by simp_all
  from walk_count(1) [OF w] have c: "final_count run = int (text_changes root (final_tree run))"
    by simp
  have "final_tree run = root" if "final_count run = 0"
    using walk_unchanged(1) [OF w that] .
  moreover have "final_count run = 0" if "final_tree run = root"
    using c that by (simp add: text_changes_same)
  ultimately have "(0 < final_count run) = (final_tree run \<noteq> root)"
    using c by auto
  with r x c show ?thesis by simp
qed

theorem modified_count_counts_witness:
  "process_xml doc_mixed 1024 False =
     Inr \<lparr>returned = PyNone, final_tree = tree_mixed, final_count = 1,
          written = Some tree_mixed\<rparr> \<and>
   text_changes doc_mixed tree_mixed = 1 \<and> tree_mixed \<noteq> doc_mixed"
proof -
  let ?run = "\<lparr>returned = PyNone, final_tree = tree_mixed, final_count = 1,
      written = Some tree_mixed\<rparr>"
  have h: "process_xml doc_mixed 1024 False = Inr ?run" by code_simp
  from modified_count_counts [OF h] h show ?thesis by simp
qed

text \<open>
  The claim as stated fails: on a parseable document with an empty value element the
  call raises, and on \<open>doc_mixed\<close> it changes one value and still returns \<^verbatim>\<open>None\<close>.
\<close>

theorem process_xml_result_counterexample:
  "process_xml doc_empty_value 1024 False = Inl AttributeError \<and>
   process_xml doc_mixed 1024 False =
     Inr \<lparr>returned = PyNone, final_tree = tree_mixed, final_count = 1,
          written = Some tree_mixed\<rparr>"
  by code_simp

text \<open>
  C5. The claim: a document without eligible properties gives a count of zero, no
  write and an unchanged document. \<open>doc_unrelated_empty\<close> has no eligible property in
  either mode, and the call raises \<^verbatim>\<open>AttributeError\<close> at \<^verbatim>\<open>value_elem.text.strip()\<close>
  before the name is looked at. (Where the call does come to its end,
  \<open>no_eligible_no_change\<close> gives what the claim says.)
\<close>

theorem no_eligible_raises:
  "\<not> list_ex (eligible_property (detect_ns (el_tag doc_unrelated_empty)) False)
       (iter_all doc_unrelated_empty) \<and>
   \<not> list_ex (eligible_property (detect_ns (el_tag doc_unrelated_empty)) True)
       (iter_all doc_unrelated_empty) \<and>
   process_xml doc_unrelated_empty 1024 False = Inl AttributeError \<and>
   process_xml doc_unrelated_empty 1024 True = Inl AttributeError"
  by code_simp

end
